theory Spec2Isabelle
  imports Complex_Main
begin

section \<open>Python values used by the intent recognition pipeline\<close>

text \<open>
  A Python \<^verbatim>\<open>str\<close> is a sequence of Unicode code points. The input text, the keywords and
  the literals of the regular expressions contain CJK characters, so they are lists of
  code points (\<open>ustr\<close>). Intent names and rule identifiers are ASCII in the source and are
  kept as \<open>string\<close>.

  Confidences are Python floats. Every confidence the pipeline computes is one of the
  literals 0.9, 0.8, 0.4, a sum of the last two, 0.0 or 1.0, and is only compared with
  \<^verbatim>\<open>>\<close> and \<^verbatim>\<open>min\<close>. They are modelled as rationals: \<open>0.4 + 0.4\<close> is exactly the double
  \<open>0.8\<close> (a doubling), and every other sum of weights is above \<open>1.0\<close> both as doubles and as
  rationals, where it is clamped.
\<close>

type_synonym ustr = "nat list"

text \<open>\<^verbatim>\<open>t.startswith(w)\<close> and \<^verbatim>\<open>w in t\<close> on strings.\<close>

fun starts_with :: "'a list \<Rightarrow> 'a list \<Rightarrow> bool" where
  "starts_with t [] = True"
| "starts_with [] (a # w) = False"
| "starts_with (b # t) (a # w) = (a = b \<and> starts_with t w)"

fun str_in :: "'a list \<Rightarrow> 'a list \<Rightarrow> bool" where
  "str_in w [] = (w = [])"
| "str_in w (c # cs) = (starts_with (c # cs) w \<or> str_in w cs)"

text \<open>\<^verbatim>\<open>str(i)\<close> for a non-negative integer, as used by the f-string of a rule identifier.\<close>

fun str_nat :: "nat \<Rightarrow> string" where
  "str_nat n =
     (if n < 10 then [''0123456789'' ! n]
      else str_nat (n div 10) @ [''0123456789'' ! (n mod 10)])"

declare str_nat.simps [simp del]

text \<open>
  \<^verbatim>\<open>max(xs, key=f)\<close> on a non-empty sequence \<open>x # xs\<close>: the first element whose key is
  maximal (a later element replaces the running best only when its key is strictly
  greater).
\<close>

fun max_by :: "('a \<Rightarrow> rat) \<Rightarrow> 'a \<Rightarrow> 'a list \<Rightarrow> 'a" where
  "max_by key best [] = best"
| "max_by key best (x # xs) = max_by key (if key best < key x then x else best) xs"

text \<open>
  Assignment \<^verbatim>\<open>d[k] = v\<close> on a dict kept as an association list in insertion order: an
  existing key keeps its place, a new key goes to the end.
\<close>

fun dict_set :: "('k \<times> 'v) list \<Rightarrow> 'k \<Rightarrow> 'v \<Rightarrow> ('k \<times> 'v) list" where
  "dict_set [] k v = [(k, v)]"
| "dict_set ((k', v') # d) k v =
     (if k' = k then (k, v) # d else (k', v') # dict_set d k v)"

datatype error = TypeError | IndexError


section \<open>The regular expressions of the source and \<^verbatim>\<open>re.search\<close>\<close>

text \<open>
  The patterns of the source are sequences of single-character matchers (a literal,
  \<^verbatim>\<open>.\<close>, \<^verbatim>\<open>\d\<close>), each possibly quantified (\<^verbatim>\<open>*\<close>, \<^verbatim>\<open>*?\<close>, \<^verbatim>\<open>+\<close>, \<^verbatim>\<open>{6,}\<close>, \<^verbatim>\<open>?\<close>), and of capturing
  groups that hold alternatives of such sequences. No group is nested or quantified.

  \<^verbatim>\<open>.\<close> matches every character but the newline. \<^verbatim>\<open>\d\<close> on a \<^verbatim>\<open>str\<close> pattern matches the
  characters of Unicode category Nd; that table belongs to the interpreter, so the
  matcher takes it as the parameter \<open>nd\<close>.

  The intent patterns are searched with \<^verbatim>\<open>re.IGNORECASE\<close>, the slot patterns without. All
  literals of the intent patterns are caseless CJK ideographs, for which the flag changes
  nothing, so one matcher serves both.
\<close>

datatype cls = Dot | Digit | Lit nat

fun cls_ok :: "(nat \<Rightarrow> bool) \<Rightarrow> cls \<Rightarrow> nat \<Rightarrow> bool" where
  "cls_ok nd Dot c = (c \<noteq> 10)"
| "cls_ok nd Digit c = nd c"
| "cls_ok nd (Lit a) c = (c = a)"

text \<open>
  \<open>One c\<close> is the matcher \<open>c\<close> alone; \<open>Many greedy n c\<close> is \<open>c{n,}\<close>, greedy or lazy
  (\<^verbatim>\<open>*\<close> is \<open>Many True 0\<close>, \<^verbatim>\<open>*?\<close> is \<open>Many False 0\<close>, \<^verbatim>\<open>+\<close> is \<open>Many True 1\<close>);
  \<open>Opt c\<close> is \<^verbatim>\<open>c?\<close>.
\<close>

datatype item = One cls | Many bool nat cls | Opt cls

datatype piece = Plain item | Group "item list list"

type_synonym pattern = "piece list"

text \<open>
  The backtracking matcher as a list of successes: every function returns what is left
  of the text after each way of matching, in the order in which the backtracking engine
  tries them. A greedy repetition tries the longest run first and gives characters back
  one at a time; a lazy one starts from the shortest.
\<close>

fun m_item :: "(nat \<Rightarrow> bool) \<Rightarrow> item \<Rightarrow> ustr \<Rightarrow> ustr list" where
  "m_item nd (One c) s =
     (case s of [] \<Rightarrow> [] | x # xs \<Rightarrow> if cls_ok nd c x then [xs] else [])"
| "m_item nd (Many greedy n c) s =
     (let k = length (takeWhile (cls_ok nd c) s);
          counts = (if greedy then rev [n..<Suc k] else [n..<Suc k])
      in map (\<lambda>j. drop j s) counts)"
| "m_item nd (Opt c) s =
     (case s of [] \<Rightarrow> [s] | x # xs \<Rightarrow> if cls_ok nd c x then [xs, s] else [s])"

fun m_seq :: "(nat \<Rightarrow> bool) \<Rightarrow> item list \<Rightarrow> ustr \<Rightarrow> ustr list" where
  "m_seq nd [] s = [s]"
| "m_seq nd (i # is) s = concat (map (m_seq nd is) (m_item nd i s))"

text \<open>
  A matching state is the rest of the text and the groups captured so far. A group
  tries its alternatives from left to right and records the text it consumed.
\<close>

fun m_piece :: "(nat \<Rightarrow> bool) \<Rightarrow> piece \<Rightarrow> ustr \<times> ustr list \<Rightarrow> (ustr \<times> ustr list) list" where
  "m_piece nd (Plain i) (s, caps) = map (\<lambda>r. (r, caps)) (m_item nd i s)"
| "m_piece nd (Group alts) (s, caps) =
     concat (map (\<lambda>alt. map (\<lambda>r. (r, caps @ [take (length s - length r) s]))
                              (m_seq nd alt s)) alts)"

fun m_pat :: "(nat \<Rightarrow> bool) \<Rightarrow> pattern \<Rightarrow> ustr \<times> ustr list \<Rightarrow> (ustr \<times> ustr list) list" where
  "m_pat nd [] st = [st]"
| "m_pat nd (p # ps) st = concat (map (m_pat nd ps) (m_piece nd p st))"

text \<open>
  A match at the start of \<open>s\<close>: the first success. The callers read only
  \<^verbatim>\<open>match.groups()\<close> and \<^verbatim>\<open>match.group(1)\<close>, so a match is the tuple of its groups.
\<close>

definition match_at :: "(nat \<Rightarrow> bool) \<Rightarrow> pattern \<Rightarrow> ustr \<Rightarrow> ustr list option" where
  "match_at nd pat s =
     (case m_pat nd pat (s, []) of [] \<Rightarrow> None | (r, caps) # _ \<Rightarrow> Some caps)"

text \<open>\<^verbatim>\<open>re.search\<close>: the match at the leftmost position that has one.\<close>

fun re_search :: "(nat \<Rightarrow> bool) \<Rightarrow> pattern \<Rightarrow> ustr \<Rightarrow> ustr list option" where
  "re_search nd pat [] = match_at nd pat []"
| "re_search nd pat (c # cs) =
     (case match_at nd pat (c # cs) of
        Some g \<Rightarrow> Some g
      | None \<Rightarrow> re_search nd pat cs)"

definition lits :: "ustr \<Rightarrow> piece list" where
  "lits w = map (\<lambda>c. Plain (One (Lit c))) w"

definition any_greedy :: piece where
  "any_greedy = Plain (Many True 0 Dot)"

definition any_lazy :: piece where
  "any_lazy = Plain (Many False 0 Dot)"


section \<open>models.py: IntentResult\<close>

record IntentResult =
  intent :: string
  confidence :: rat
  matched_rules :: "string list"
  extracted_entities :: "ustr list option"

text \<open>
  The dataclass constructor followed by \<^verbatim>\<open>__post_init__\<close>, which replaces a
  \<^verbatim>\<open>matched_rules\<close> of \<^verbatim>\<open>None\<close> by the empty list.
\<close>

definition new_IntentResult ::
  "string \<Rightarrow> rat \<Rightarrow> string list option \<Rightarrow> ustr list option \<Rightarrow> IntentResult" where
  "new_IntentResult i c rules ents =
     \<lparr>intent = i, confidence = c,
      matched_rules = (case rules of None \<Rightarrow> [] | Some rs \<Rightarrow> rs),
      extracted_entities = ents\<rparr>"

text \<open>\<^verbatim>\<open>IntentResult()\<close> with all defaults.\<close>

definition default_IntentResult :: IntentResult where
  "default_IntentResult = new_IntentResult ''unknown'' 0 None None"


section \<open>regex_matcher.py: RegexIntentParser\<close>

text \<open>
  \<^verbatim>\<open>self.patterns\<close>, in the order of the dict literal, with the CJK literals written
  as code points \<open>uXXXX\<close>:
  query_order: \<^verbatim>\<open>u67E5.*u8BA2u5355.*(\d+)\<close>, \<^verbatim>\<open>u8BA2u5355u53F7.*?(\d{6,})\<close>,
  \<^verbatim>\<open>u6211u7684u8BA2u5355.*u72B6u6001\<close>;
  refund: \<^verbatim>\<open>u9000.*u6B3E\<close>, \<^verbatim>\<open>u53D6u6D88.*u8BA2u5355\<close>, \<^verbatim>\<open>u4E0Du8981.*u4E86\<close>;
  issue_invoice: \<^verbatim>\<open>u5F00.*u53D1u7968\<close>, \<^verbatim>\<open>u8981.*u53D1u7968\<close>, \<^verbatim>\<open>u53D1u7968.*u5F00\<close>.
\<close>

definition patterns :: "(string \<times> pattern list) list" where
  "patterns =
     [(''query_order'',
        [lits [0x67E5] @ [any_greedy] @ lits [0x8BA2, 0x5355] @ [any_greedy]
           @ [Group [[Many True 1 Digit]]],
         lits [0x8BA2, 0x5355, 0x53F7] @ [any_lazy] @ [Group [[Many True 6 Digit]]],
         lits [0x6211, 0x7684, 0x8BA2, 0x5355] @ [any_greedy] @ lits [0x72B6, 0x6001]]),
      (''refund'',
        [lits [0x9000] @ [any_greedy] @ lits [0x6B3E],
         lits [0x53D6, 0x6D88] @ [any_greedy] @ lits [0x8BA2, 0x5355],
         lits [0x4E0D, 0x8981] @ [any_greedy] @ lits [0x4E86]]),
      (''issue_invoice'',
        [lits [0x5F00] @ [any_greedy] @ lits [0x53D1, 0x7968],
         lits [0x8981] @ [any_greedy] @ lits [0x53D1, 0x7968],
         lits [0x53D1, 0x7968] @ [any_greedy] @ lits [0x5F00]])]"

text \<open>
  The inner loop of \<^verbatim>\<open>parse\<close> over \<^verbatim>\<open>enumerate(patterns)\<close> from index \<open>i\<close> on: \<open>Some\<close> is the
  \<^verbatim>\<open>return\<close> inside the loop, \<open>None\<close> is the loop running to its end.
\<close>

fun try_patterns ::
  "(nat \<Rightarrow> bool) \<Rightarrow> ustr \<Rightarrow> string \<Rightarrow> nat \<Rightarrow> pattern list \<Rightarrow> IntentResult option" where
  "try_patterns nd text i_name i [] = None"
| "try_patterns nd text i_name i (p # ps) =
     (case re_search nd p text of
        Some groups \<Rightarrow>
          Some (new_IntentResult i_name (9 / 10)
                  (Some [''regex_'' @ i_name @ ''_'' @ str_nat i])
                  (if groups \<noteq> [] then Some groups else None))
      | None \<Rightarrow> try_patterns nd text i_name (Suc i) ps)"

text \<open>The outer loop over \<^verbatim>\<open>self.patterns.items()\<close> and the final \<^verbatim>\<open>return IntentResult()\<close>.\<close>

fun try_intents ::
  "(nat \<Rightarrow> bool) \<Rightarrow> ustr \<Rightarrow> (string \<times> pattern list) list \<Rightarrow> IntentResult" where
  "try_intents nd text [] = default_IntentResult"
| "try_intents nd text ((i_name, pats) # rest) =
     (case try_patterns nd text i_name 0 pats of
        Some r \<Rightarrow> r
      | None \<Rightarrow> try_intents nd text rest)"

definition RegexIntentParser_parse :: "(nat \<Rightarrow> bool) \<Rightarrow> ustr \<Rightarrow> IntentResult" where
  "RegexIntentParser_parse nd text = try_intents nd text patterns"


section \<open>keyword_matcher.py: KeywordIntentParser\<close>

text \<open>
  One entry of \<^verbatim>\<open>self.keywords\<close>: the two keyword lists and the two entries of its
  \<^verbatim>\<open>weights\<close> dict.
\<close>

record kw_config =
  primary :: "ustr list"
  secondary :: "ustr list"
  weight_primary :: rat
  weight_secondary :: rat

text \<open>
  \<^verbatim>\<open>self.keywords\<close>, in the order of the dict literal, with the CJK keywords written as
  code points:
  query_order: primary \<^verbatim>\<open>u67E5u8BA2u5355\<close>, \<^verbatim>\<open>u8BA2u5355u72B6u6001\<close>, \<^verbatim>\<open>u7269u6D41u4FE1u606F\<close>;
  secondary \<^verbatim>\<open>u5FEBu9012\<close>, \<^verbatim>\<open>u53D1u8D27\<close>, \<^verbatim>\<open>u5230u4E86u5417\<close>.
  refund: primary \<^verbatim>\<open>u9000u94B1\<close>, \<^verbatim>\<open>u9000u6B3E\<close>, \<^verbatim>\<open>u9000u8D27\<close>;
  secondary \<^verbatim>\<open>u4E0Du8981\<close>, \<^verbatim>\<open>u53D6u6D88\<close>, \<^verbatim>\<open>u9000u56DE\<close>.
  issue_invoice: primary \<^verbatim>\<open>u5F00u53D1u7968\<close>, \<^verbatim>\<open>u8981u53D1u7968\<close>, \<^verbatim>\<open>u53D1u7968\<close>;
  secondary \<^verbatim>\<open>u62A5u9500\<close>, \<^verbatim>\<open>u5F00u7968\<close>.
  Every \<^verbatim>\<open>weights\<close> dict is \<^verbatim>\<open>{'primary': 0.8, 'secondary': 0.4}\<close>.
\<close>

definition query_order_keywords :: kw_config where
  "query_order_keywords =
     \<lparr>primary = [[0x67E5, 0x8BA2, 0x5355], [0x8BA2, 0x5355, 0x72B6, 0x6001],
                 [0x7269, 0x6D41, 0x4FE1, 0x606F]],
      secondary = [[0x5FEB, 0x9012], [0x53D1, 0x8D27], [0x5230, 0x4E86, 0x5417]],
      weight_primary = 8 / 10, weight_secondary = 4 / 10\<rparr>"

definition refund_keywords :: kw_config where
  "refund_keywords =
     \<lparr>primary = [[0x9000, 0x94B1], [0x9000, 0x6B3E], [0x9000, 0x8D27]],
      secondary = [[0x4E0D, 0x8981], [0x53D6, 0x6D88], [0x9000, 0x56DE]],
      weight_primary = 8 / 10, weight_secondary = 4 / 10\<rparr>"

definition issue_invoice_keywords :: kw_config where
  "issue_invoice_keywords =
     \<lparr>primary = [[0x5F00, 0x53D1, 0x7968], [0x8981, 0x53D1, 0x7968], [0x53D1, 0x7968]],
      secondary = [[0x62A5, 0x9500], [0x5F00, 0x7968]],
      weight_primary = 8 / 10, weight_secondary = 4 / 10\<rparr>"

definition keywords_dict :: "(string \<times> kw_config) list" where
  "keywords_dict =
     [(''query_order'', query_order_keywords),
      (''refund'', refund_keywords),
      (''issue_invoice'', issue_invoice_keywords)]"

text \<open>
  One of the two inner loops over a keyword list: every word found in the text adds the
  weight to \<open>score\<close> and is appended to \<open>matched_words\<close>.
\<close>

fun scan_words :: "ustr \<Rightarrow> rat \<Rightarrow> ustr list \<Rightarrow> rat \<times> ustr list \<Rightarrow> rat \<times> ustr list" where
  "scan_words text w [] acc = acc"
| "scan_words text w (word # ws) (score, matched_words) =
     scan_words text w ws
       (if str_in word text then (score + w, matched_words @ [word])
        else (score, matched_words))"

text \<open>The body of the loop over the intents, up to the test \<^verbatim>\<open>score > 0\<close>.\<close>

definition score_intent :: "ustr \<Rightarrow> kw_config \<Rightarrow> rat \<times> ustr list" where
  "score_intent text config =
     scan_words text (weight_secondary config) (secondary config)
       (scan_words text (weight_primary config) (primary config) (0, []))"

text \<open>
  The loop over \<^verbatim>\<open>self.keywords.items()\<close>, which fills the dict \<^verbatim>\<open>scores\<close>; an entry is the
  pair of \<^verbatim>\<open>'score'\<close> and \<^verbatim>\<open>'matched_words'\<close>.
\<close>

fun collect_scores ::
  "ustr \<Rightarrow> (string \<times> kw_config) list \<Rightarrow> (string \<times> rat \<times> ustr list) list
     \<Rightarrow> (string \<times> rat \<times> ustr list) list" where
  "collect_scores text [] scores = scores"
| "collect_scores text ((i_name, config) # rest) scores =
     (case score_intent text config of
        (score, matched_words) \<Rightarrow>
          collect_scores text rest
            (if 0 < score then dict_set scores i_name (min score 1, matched_words)
             else scores))"

text \<open>
  \<^verbatim>\<open>scores[x]['score']\<close> and \<^verbatim>\<open>scores[x]['matched_words']\<close>. They are only read at keys of
  \<^verbatim>\<open>scores\<close>, so the \<^verbatim>\<open>KeyError\<close> of a missing key cannot happen; the model gives it the
  values \<open>0\<close> and \<open>[]\<close>.
\<close>

definition score_of :: "(string \<times> rat \<times> ustr list) list \<Rightarrow> string \<Rightarrow> rat" where
  "score_of scores x = (case map_of scores x of None \<Rightarrow> 0 | Some (s, ws) \<Rightarrow> s)"

definition words_of :: "(string \<times> rat \<times> ustr list) list \<Rightarrow> string \<Rightarrow> ustr list" where
  "words_of scores x = (case map_of scores x of None \<Rightarrow> [] | Some (s, ws) \<Rightarrow> ws)"

text \<open>The selection after the loop: \<^verbatim>\<open>if scores:\<close> and the \<^verbatim>\<open>max\<close> over the keys.\<close>

definition select_best :: "(string \<times> rat \<times> ustr list) list \<Rightarrow> IntentResult" where
  "select_best scores =
     (case map fst scores of
        [] \<Rightarrow> default_IntentResult
      | k # ks \<Rightarrow>
          (let best_intent = max_by (score_of scores) k ks
           in new_IntentResult best_intent (score_of scores best_intent)
                (Some [''keyword_'' @ best_intent])
                (Some (words_of scores best_intent))))"

definition parse_keywords :: "(string \<times> kw_config) list \<Rightarrow> ustr \<Rightarrow> IntentResult" where
  "parse_keywords table text = select_best (collect_scores text table [])"

definition KeywordIntentParser_parse :: "ustr \<Rightarrow> IntentResult" where
  "KeywordIntentParser_parse text = parse_keywords keywords_dict text"


section \<open>slot_filler.py: SlotExtractor\<close>

text \<open>
  \<^verbatim>\<open>self.slot_patterns\<close>, with the CJK literals written as code points:
  query_order: order_id \<^verbatim>\<open>(\d{6,})\<close>, time \<^verbatim>\<open>(u6628u5929|u4ECAu5929|u524Du5929|u4E0Au5468|u672Cu6708)\<close>;
  refund: order_id \<^verbatim>\<open>u8BA2u5355.*?(\d{6,})\<close>, reason \<^verbatim>\<open>u56E0u4E3A(.*?)u6240u4EE5\<close>,
  time \<^verbatim>\<open>(u6628u5929|u4ECAu5929|u524Du5929).*u4E0B.*u5355\<close>;
  issue_invoice: order_id \<^verbatim>\<open>(\d{6,})\<close>, amount \<^verbatim>\<open>(\d+\.?\d*)u5143\<close>.
\<close>

definition slot_patterns :: "(string \<times> (string \<times> pattern) list) list" where
  "slot_patterns =
     [(''query_order'',
        [(''order_id'', [Group [[Many True 6 Digit]]]),
         (''time'', [Group [[One (Lit 0x6628), One (Lit 0x5929)],
                            [One (Lit 0x4ECA), One (Lit 0x5929)],
                            [One (Lit 0x524D), One (Lit 0x5929)],
                            [One (Lit 0x4E0A), One (Lit 0x5468)],
                            [One (Lit 0x672C), One (Lit 0x6708)]]])]),
      (''refund'',
        [(''order_id'', lits [0x8BA2, 0x5355] @ [any_lazy] @ [Group [[Many True 6 Digit]]]),
         (''reason'', lits [0x56E0, 0x4E3A] @ [Group [[Many False 0 Dot]]]
                        @ lits [0x6240, 0x4EE5]),
         (''time'', [Group [[One (Lit 0x6628), One (Lit 0x5929)],
                            [One (Lit 0x4ECA), One (Lit 0x5929)],
                            [One (Lit 0x524D), One (Lit 0x5929)]]]
                      @ [any_greedy] @ lits [0x4E0B] @ [any_greedy] @ lits [0x5355])]),
      (''issue_invoice'',
        [(''order_id'', [Group [[Many True 6 Digit]]]),
         (''amount'', [Group [[Many True 1 Digit, Opt (Lit 46), Many True 0 Digit]]]
                        @ lits [0x5143])])]"

text \<open>
  The loop over \<^verbatim>\<open>patterns.items()\<close>. \<^verbatim>\<open>match.group(1)\<close> raises \<^verbatim>\<open>IndexError\<close> for a pattern
  without a group.
\<close>

fun fill_slots ::
  "(nat \<Rightarrow> bool) \<Rightarrow> ustr \<Rightarrow> (string \<times> pattern) list \<Rightarrow> (string \<rightharpoonup> ustr)
     \<Rightarrow> error + (string \<rightharpoonup> ustr)" where
  "fill_slots nd text [] slots = Inr slots"
| "fill_slots nd text ((slot_name, pat) # rest) slots =
     (case re_search nd pat text of
        None \<Rightarrow> fill_slots nd text rest slots
      | Some groups \<Rightarrow>
          (case groups of
             [] \<Rightarrow> Inl IndexError
           | g # _ \<Rightarrow> fill_slots nd text rest (slots(slot_name \<mapsto> g))))"

definition extract_slots_in ::
  "(string \<times> (string \<times> pattern) list) list \<Rightarrow> (nat \<Rightarrow> bool) \<Rightarrow> ustr \<Rightarrow> string
     \<Rightarrow> error + (string \<rightharpoonup> ustr)" where
  "extract_slots_in table nd text i_name =
     (case map_of table i_name of
        None \<Rightarrow> Inr Map.empty
      | Some pats \<Rightarrow> fill_slots nd text pats Map.empty)"

definition extract_slots :: "(nat \<Rightarrow> bool) \<Rightarrow> ustr \<Rightarrow> string \<Rightarrow> error + (string \<rightharpoonup> ustr)" where
  "extract_slots nd text i_name = extract_slots_in slot_patterns nd text i_name"


section \<open>rule_engine.py: RuleBasedIntentChain\<close>

text \<open>
  The test \<^verbatim>\<open>any("regex" in rule for rule in r.matched_rules)\<close>, by which the chain tells
  a result of the regex parser from any other.
\<close>

definition is_regex_result :: "IntentResult \<Rightarrow> bool" where
  "is_regex_result r = list_ex (\<lambda>rule. str_in ''regex'' rule) (matched_rules r)"

text \<open>
  \<^verbatim>\<open>_merge_results\<close>. The \<^verbatim>\<open>max\<close> is only reached with a non-empty \<^verbatim>\<open>valid_results\<close>, whose
  head and tail are \<open>v\<close> and \<open>vs\<close>.
\<close>

definition merge_results :: "IntentResult list \<Rightarrow> IntentResult" where
  "merge_results results =
     (let valid_results = filter (\<lambda>r. intent r \<noteq> ''unknown'') results
      in case valid_results of
           [] \<Rightarrow> default_IntentResult
         | v # vs \<Rightarrow>
             (case filter is_regex_result valid_results of
                r0 # _ \<Rightarrow>
                  if 8 / 10 < confidence r0 then r0 else max_by confidence v vs
              | [] \<Rightarrow> max_by confidence v vs))"

text \<open>
  \<^verbatim>\<open>_generate_reasoning\<close> builds a sentence from the kind of rule, the intent and the
  confidence printed with two decimals. The model keeps the three parts instead of
  the formatted sentence.
\<close>

datatype rule_type = RegexMatch | KeywordMatch

datatype reasoning = NoRuleMatched | RecognisedBy rule_type string rat

definition generate_reasoning :: "IntentResult \<Rightarrow> reasoning" where
  "generate_reasoning result =
     (if intent result = ''unknown'' then NoRuleMatched
      else RecognisedBy (if is_regex_result result then RegexMatch else KeywordMatch)
             (intent result) (confidence result))"

text \<open>
  The values a caller may store in the input dict or in a context. \<^verbatim>\<open>re.search\<close> raises
  \<^verbatim>\<open>TypeError\<close> on a text that is not a \<^verbatim>\<open>str\<close>, which \<^verbatim>\<open>invoke\<close> does not catch. The
  three debug \<^verbatim>\<open>print\<close> calls of \<^verbatim>\<open>invoke\<close> do not touch its result and are left out.
\<close>

datatype pyval = PNone | PBool bool | PInt int | PFloat rat | PStr ustr

record invoke_result =
  r_intent :: string
  r_confidence :: rat
  r_slots :: "string \<rightharpoonup> ustr"
  r_matched_rules :: "string list"
  r_extracted_entities :: "ustr list option"
  r_reasoning :: reasoning

definition invoke :: "(nat \<Rightarrow> bool) \<Rightarrow> (string \<rightharpoonup> pyval) \<Rightarrow> error + invoke_result" where
  "invoke nd input_dict =
     (case (case input_dict ''text'' of None \<Rightarrow> PStr [] | Some v \<Rightarrow> v) of
        PStr text \<Rightarrow>
          (let regex_result = RegexIntentParser_parse nd text;
               keyword_result = KeywordIntentParser_parse text;
               final_result = merge_results [regex_result, keyword_result]
           in case extract_slots nd text (intent final_result) of
                Inl e \<Rightarrow> Inl e
              | Inr slots \<Rightarrow>
                  Inr \<lparr>r_intent = intent final_result,
                       r_confidence = confidence final_result,
                       r_slots = slots,
                       r_matched_rules = matched_rules final_result,
                       r_extracted_entities = extracted_entities final_result,
                       r_reasoning = generate_reasoning final_result\<rparr>)
      | _ \<Rightarrow> Inl TypeError)"


section \<open>xw_intent_parse.py: ExcelIntentRecognizer.parse\<close>

text \<open>
  The recognizer reads a sheet of an Excel file with pandas and reports the segments
  whose interruption exceeds a threshold. The file work is \<^verbatim>\<open>_parse_sheet_data\<close>; it is
  the parameter \<open>sheet_data\<close> here, a function of the six arguments of the call that
  returns the parsed rows or \<open>None\<close> when the call raises. To tell whether the file work
  was attempted, \<open>parse\<close> returns, next to its result, the list of the calls it made.
\<close>

definition truthy :: "pyval \<Rightarrow> bool" where
  "truthy v =
     (case v of
        PNone \<Rightarrow> False
      | PBool b \<Rightarrow> b
      | PInt i \<Rightarrow> i \<noteq> 0
      | PFloat x \<Rightarrow> x \<noteq> 0
      | PStr s \<Rightarrow> s \<noteq> [])"

text \<open>\<^verbatim>\<open>d.get(k, default)\<close>.\<close>

definition dict_get :: "('k \<rightharpoonup> 'v) \<Rightarrow> 'k \<Rightarrow> 'v \<Rightarrow> 'v" where
  "dict_get d k dflt = (case d k of None \<Rightarrow> dflt | Some v \<Rightarrow> v)"

record excel_call =
  c_execl_path :: pyval
  c_sheet_name :: pyval
  c_duration_threshold :: pyval
  c_ignore_no_interruption :: pyval
  c_excel_type :: pyval
  c_segment_pattern :: pyval

text \<open>The fields that \<^verbatim>\<open>__init__\<close> sets and \<^verbatim>\<open>parse\<close> reads.\<close>

record ExcelIntentRecognizer =
  x_name :: string
  default_duration_threshold :: pyval
  default_ignore_no_interruption :: pyval
  default_excel_type :: pyval
  segment_pattern :: pyval
  excel_types_config :: "ustr \<rightharpoonup> (string \<rightharpoonup> pyval)"

text \<open>
  The result of the recognizer: the keyword arguments it passes to the engine's
  \<^verbatim>\<open>IntentResult\<close>, with the entries of the \<^verbatim>\<open>metadata\<close> dict.
\<close>

record 'd excel_result =
  x_intent :: string
  x_confidence :: rat
  x_recognizer :: string
  x_call :: excel_call
  x_result_count :: nat
  x_data :: "'d list"

text \<open>
  \<^verbatim>\<open>excel_type in self.excel_types_config\<close> and the lookup that follows: the keys of the
  config are strings, so a value that is not a \<^verbatim>\<open>str\<close> is not among them.
\<close>

definition lookup_type :: "(ustr \<rightharpoonup> (string \<rightharpoonup> pyval)) \<Rightarrow> pyval \<Rightarrow> (string \<rightharpoonup> pyval) option" where
  "lookup_type cfg excel_type = (case excel_type of PStr s \<Rightarrow> cfg s | _ \<Rightarrow> None)"

definition ExcelIntentRecognizer_parse ::
  "ExcelIntentRecognizer \<Rightarrow> (excel_call \<Rightarrow> 'd list option) \<Rightarrow> ustr
     \<Rightarrow> (string \<rightharpoonup> pyval) option \<Rightarrow> 'd excel_result option \<times> excel_call list" where
  "ExcelIntentRecognizer_parse self sheet_data text context0 =
     (let context = (case context0 of None \<Rightarrow> Map.empty | Some c \<Rightarrow> c)
      in if \<not> truthy (dict_get context ''trigger_excel'' (PBool False)) then (None, [])
         else
           (let excel_type = dict_get context ''excel_type'' (default_excel_type self)
            in case lookup_type (excel_types_config self) excel_type of
                 None \<Rightarrow> (None, [])
               | Some type_config \<Rightarrow>
                   (let default_path = dict_get type_config ''excel_path'' (PStr []);
                        default_sheet = dict_get type_config ''sheet_name'' (PStr []);
                        call = \<lparr>c_execl_path = dict_get context ''execl_path'' default_path,
                                c_sheet_name = dict_get context ''sheet_name'' default_sheet,
                                c_duration_threshold =
                                  dict_get context ''duration_threshold''
                                    (default_duration_threshold self),
                                c_ignore_no_interruption =
                                  dict_get context ''ignore_no_interruption''
                                    (default_ignore_no_interruption self),
                                c_excel_type = excel_type,
                                c_segment_pattern =
                                  dict_get context ''segment_pattern'' (segment_pattern self)\<rparr>
                    in if \<not> truthy (c_execl_path call) \<or> \<not> truthy (c_sheet_name call)
                       then (None, [])
                       else
                         (case sheet_data call of
                            None \<Rightarrow> (None, [call])
                          | Some parsed_data \<Rightarrow>
                              (Some \<lparr>x_intent = ''excel_interruption_analysis'',
                                     x_confidence = 1,
                                     x_recognizer = x_name self,
                                     x_call = call,
                                     x_result_count = length parsed_data,
                                     x_data = parsed_data\<rparr>,
                               [call])))))"


section \<open>Notions of the specification\<close>

text \<open>
  The first element of a list whose key is maximal: the \<open>argmax\<close> of the specification
  with ties going to the earlier element.
\<close>

definition first_argmax :: "('a \<Rightarrow> rat) \<Rightarrow> 'a list \<Rightarrow> 'a option" where
  "first_argmax f xs = find (\<lambda>x. list_all (\<lambda>y. f y \<le> f x) xs) xs"

text \<open>
  The invariant of the data model: a result is the unknown one, has confidence zero and
  has no matched rule, all at once or not at all.
\<close>

definition evidence_invariant :: "IntentResult \<Rightarrow> bool" where
  "evidence_invariant r =
     (((intent r = ''unknown'') = (confidence r = 0))
      \<and> ((confidence r = 0) = (matched_rules r = [])))"

text \<open>
  The evidence fields as the specification describes them: both non-empty on a real
  match, both the empty list (not null) on the unknown result.
\<close>

definition claimed_evidence :: "IntentResult \<Rightarrow> bool" where
  "claimed_evidence r =
     (if intent r = ''unknown''
      then matched_rules r = [] \<and> extracted_entities r = Some []
      else matched_rules r \<noteq> [] \<and> extracted_entities r \<noteq> None
           \<and> extracted_entities r \<noteq> Some [])"

text \<open>
  The evidence fields as the code fills them: the unknown result has no rule and null
  entities; a real match has a rule, and entities that are null or a non-empty tuple.
\<close>

definition evidence_shape :: "IntentResult \<Rightarrow> bool" where
  "evidence_shape r =
     (if intent r = ''unknown''
      then matched_rules r = [] \<and> extracted_entities r = None
      else matched_rules r \<noteq> [] \<and> extracted_entities r \<noteq> Some [])"

text \<open>
  The rules of the pattern recognizer in declaration order: every pattern with its
  intent and its index within the intent.
\<close>

definition flat_rules :: "(string \<times> pattern list) list \<Rightarrow> (string \<times> nat \<times> pattern) list" where
  "flat_rules table =
     concat (map (\<lambda>(i_name, pats). map (\<lambda>(k, p). (i_name, k, p)) (enumerate 0 pats)) table)"

text \<open>The result the pattern recognizer reports for a rule and the groups of its match.\<close>

definition regex_result :: "string \<Rightarrow> nat \<Rightarrow> ustr list \<Rightarrow> IntentResult" where
  "regex_result i_name k groups =
     \<lparr>intent = i_name, confidence = 9 / 10,
      matched_rules = [''regex_'' @ i_name @ ''_'' @ str_nat k],
      extracted_entities = (if groups = [] then None else Some groups)\<rparr>"

definition spec_regex_parse ::
  "(string \<times> pattern list) list \<Rightarrow> (nat \<Rightarrow> bool) \<Rightarrow> ustr \<Rightarrow> IntentResult" where
  "spec_regex_parse table nd text =
     (case find (\<lambda>(i_name, k, p). re_search nd p text \<noteq> None) (flat_rules table) of
        None \<Rightarrow> default_IntentResult
      | Some (i_name, k, p) \<Rightarrow>
          (case re_search nd p text of
             None \<Rightarrow> default_IntentResult
           | Some groups \<Rightarrow> regex_result i_name k groups))"

text \<open>
  The keyword recognizer in the words of the specification: the score of an intent is
  the sum of the weights of its keywords found in the text; the winner is the first
  intent of maximal clamped score among those that score above zero.
\<close>

definition raw_score :: "kw_config \<Rightarrow> ustr \<Rightarrow> rat" where
  "raw_score config text =
     (\<Sum>w\<leftarrow>primary config. if str_in w text then weight_primary config else 0)
     + (\<Sum>w\<leftarrow>secondary config. if str_in w text then weight_secondary config else 0)"

definition found_words :: "kw_config \<Rightarrow> ustr \<Rightarrow> ustr list" where
  "found_words config text =
     filter (\<lambda>w. str_in w text) (primary config)
     @ filter (\<lambda>w. str_in w text) (secondary config)"

definition spec_keyword_parse :: "(string \<times> kw_config) list \<Rightarrow> ustr \<Rightarrow> IntentResult" where
  "spec_keyword_parse table text =
     (case first_argmax (\<lambda>(i_name, config). min (raw_score config text) 1)
             (filter (\<lambda>(i_name, config). 0 < raw_score config text) table) of
        None \<Rightarrow> default_IntentResult
      | Some (i_name, config) \<Rightarrow>
          \<lparr>intent = i_name, confidence = min (raw_score config text) 1,
           matched_rules = [''keyword_'' @ i_name],
           extracted_entities = Some (found_words config text)\<rparr>)"

text \<open>
  The intents that score above zero, in declaration order, and the entry that the loop
  stores in \<^verbatim>\<open>scores\<close> for one of them.
\<close>

definition scored :: "ustr \<Rightarrow> (string \<times> kw_config) list \<Rightarrow> (string \<times> kw_config) list" where
  "scored text table = filter (\<lambda>(i_name, config). 0 < raw_score config text) table"

definition entry_of :: "ustr \<Rightarrow> string \<times> kw_config \<Rightarrow> string \<times> rat \<times> ustr list" where
  "entry_of text =
     (\<lambda>(i_name, config). (i_name, min (raw_score config text) 1, found_words config text))"



text \<open>
  Slot extraction in the words of the specification: a slot is present exactly when its
  own pattern matches, and then holds the first group of that match.
\<close>

definition slot_value :: "(nat \<Rightarrow> bool) \<Rightarrow> ustr \<Rightarrow> pattern \<Rightarrow> ustr option" where
  "slot_value nd text pat =
     (case re_search nd pat text of
        None \<Rightarrow> None
      | Some groups \<Rightarrow> (case groups of [] \<Rightarrow> None | g # _ \<Rightarrow> Some g))"

definition spec_slots ::
  "(string \<times> (string \<times> pattern) list) list \<Rightarrow> (nat \<Rightarrow> bool) \<Rightarrow> ustr \<Rightarrow> string
     \<Rightarrow> (string \<rightharpoonup> ustr)" where
  "spec_slots table nd text i_name slot_name =
     (case map_of table i_name of
        None \<Rightarrow> None
      | Some pats \<Rightarrow>
          (case map_of pats slot_name of
             None \<Rightarrow> None
           | Some pat \<Rightarrow> slot_value nd text pat))"

text \<open>The number of capturing groups of a pattern.\<close>

fun ngroups :: "pattern \<Rightarrow> nat" where
  "ngroups [] = 0"
| "ngroups (Plain i # ps) = ngroups ps"
| "ngroups (Group alts # ps) = Suc (ngroups ps)"

text \<open>The result of the chain when nothing matched.\<close>

definition unknown_result :: invoke_result where
  "unknown_result =
     \<lparr>r_intent = ''unknown'', r_confidence = 0, r_slots = Map.empty,
      r_matched_rules = [], r_extracted_entities = None, r_reasoning = NoRuleMatched\<rparr>"


section \<open>Sample inputs\<close>

text \<open>
  The ASCII digits: the part of the interpreter's table of decimal digits that the
  sample texts touch, none of their other characters being a digit.
\<close>

definition ascii_digits :: "nat \<Rightarrow> bool" where
  "ascii_digits c = (48 \<le> c \<and> c \<le> 57)"

text \<open>
  The fifth test sentence of \<^verbatim>\<open>main.py\<close>, \<^verbatim>\<open>u67E5u4E00u4E0Bu6211u7684u5FEBu9012u5230u4E86u5417\<close>;
  the sixth, \<^verbatim>\<open>u4E0Du77E5u9053u8BF4u4EC0u4E48\<close>; and the word \<^verbatim>\<open>u9000u6B3E\<close>.
\<close>

definition text_express :: ustr where
  "text_express =
     [0x67E5, 0x4E00, 0x4E0B, 0x6211, 0x7684, 0x5FEB, 0x9012, 0x5230, 0x4E86, 0x5417]"

definition text_nothing :: ustr where
  "text_nothing = [0x4E0D, 0x77E5, 0x9053, 0x8BF4, 0x4EC0, 0x4E48]"

definition text_refund :: ustr where
  "text_refund = [0x9000, 0x6B3E]"

text \<open>
  The seventh test sentence of \<^verbatim>\<open>main.py\<close>, \<^verbatim>\<open>u6211u60F3u5F00u4E2A1000u5143u7684u53D1u7968\<close>.
\<close>

definition text_invoice :: ustr where
  "text_invoice =
     [0x6211, 0x60F3, 0x5F00, 0x4E2A, 0x31, 0x30, 0x30, 0x30, 0x5143, 0x7684, 0x53D1, 0x7968]"

text \<open>
  An Excel recognizer with the defaults of \<^verbatim>\<open>__init__\<close> and one configured type,
  \<^verbatim>\<open>'merged'\<close>, with the file \<^verbatim>\<open>'a'\<close> and the sheet \<^verbatim>\<open>'s'\<close>; and a file reader that finds
  one row whatever it is asked.
\<close>

definition sample_recognizer :: ExcelIntentRecognizer where
  "sample_recognizer =
     \<lparr>x_name = ''ExcelIntentRecognizer'',
      default_duration_threshold = PFloat 15,
      default_ignore_no_interruption = PBool True,
      default_excel_type = PStr [109, 101, 114, 103, 101, 100],
      segment_pattern = PStr [],
      excel_types_config =
        [[109, 101, 114, 103, 101, 100] \<mapsto>
           [''excel_path'' \<mapsto> PStr [97], ''sheet_name'' \<mapsto> PStr [115]]]\<rparr>"

definition sample_sheet_data :: "excel_call \<Rightarrow> unit list option" where
  "sample_sheet_data call = Some [()]"


section \<open>Substrings\<close>

lemma starts_with_iff: "starts_with t w \<longleftrightarrow> (\<exists>s. t = w @ s)"
  by (induction t w rule: starts_with.induct) auto

lemma str_in_iff: "str_in w t \<longleftrightarrow> (\<exists>p s. t = p @ w @ s)"
proof (induction t)
  case Nil
  show ?case by auto
next
  case (Cons c cs)
  show ?case
  proof
    assume "str_in w (c # cs)"
    then consider "starts_with (c # cs) w" | "str_in w cs" by auto
    then show "\<exists>p s. c # cs = p @ w @ s"
    proof cases
      case 1
      then obtain s where "c # cs = w @ s" unfolding starts_with_iff by blast
      then have "c # cs = [] @ w @ s" by simp
      then show ?thesis by blast
    next
      case 2
      then obtain p s where "cs = p @ w @ s" unfolding Cons.IH by blast
      then have "c # cs = (c # p) @ w @ s" by simp
      then show ?thesis by blast
    qed
  next
    assume "\<exists>p s. c # cs = p @ w @ s"
    then obtain p s where ps: "c # cs = p @ w @ s" by blast
    show "str_in w (c # cs)"
    proof (cases p)
      case Nil
      with ps have "starts_with (c # cs) w" unfolding starts_with_iff by auto
      then show ?thesis by simp
    next
      case (Cons a p')
      with ps have "cs = p' @ w @ s" by simp
      then have "str_in w cs" unfolding Cons.IH by blast
      then show ?thesis by simp
    qed
  qed
qed


section \<open>The first maximal element\<close>

lemma find_first:
  "P m \<Longrightarrow> \<forall>y\<in>set pre. \<not> P y \<Longrightarrow> find P (pre @ m # post) = Some m"
  by (induction pre) auto

lemma max_by_mem: "max_by f b xs \<in> set (b # xs)"
  by (induction xs arbitrary: b) auto

lemma max_by_ge: "y \<in> set (b # xs) \<Longrightarrow> f y \<le> f (max_by f b xs)"
proof (induction xs arbitrary: b y)
  case Nil
  then show ?case by simp
next
  case (Cons x xs)
  let ?b = "if f b < f x then x else b"
  have step: "max_by f b (x # xs) = max_by f ?b xs" by simp
  have b': "f ?b \<le> f (max_by f ?b xs)" by (rule Cons.IH) simp
  from Cons.prems consider "y = b" | "y = x" | "y \<in> set xs" by auto
  then show ?case
  proof cases
    case 1
    have "f b \<le> f ?b" by simp
    with b' 1 show ?thesis unfolding step by (meson order_trans)
  next
    case 2
    have "f x \<le> f ?b" by simp
    with b' 2 show ?thesis unfolding step by (meson order_trans)
  next
    case 3
    then have "f y \<le> f (max_by f ?b xs)" by (intro Cons.IH) simp
    then show ?thesis unfolding step .
  qed
qed

lemma max_by_split:
  "\<exists>pre post. b # xs = pre @ max_by f b xs # post \<and> (\<forall>y\<in>set pre. f y < f (max_by f b xs))"
proof (induction xs arbitrary: b)
  case Nil
  show ?case by (rule exI[of _ "[]"]) simp
next
  case (Cons x xs)
  let ?b = "if f b < f x then x else b"
  let ?m = "max_by f ?b xs"
  have step: "max_by f b (x # xs) = ?m" by simp
  from Cons.IH[of ?b] obtain pre post where
    sp: "?b # xs = pre @ ?m # post" and lt: "\<forall>y\<in>set pre. f y < f ?m" by blast
  have bm: "f ?b \<le> f ?m" by (rule max_by_ge) simp
  show ?case
  proof (cases "f b < f x")
    case True
    then have "b # x # xs = (b # pre) @ ?m # post" using sp by simp
    moreover have "f b < f ?m" using True bm by simp
    ultimately show ?thesis unfolding step using lt
      by (intro exI[of _ "b # pre"] exI[of _ post]) simp
  next
    case False
    show ?thesis
    proof (cases pre)
      case Nil
      then have "?m = b" "xs = post" using sp False by auto
      then show ?thesis unfolding step
        by (intro exI[of _ "[]"] exI[of _ "x # xs"]) simp
    next
      case (Cons p pre')
      then have p: "p = b" and xs: "xs = pre' @ ?m # post" using sp False by auto
      have "f b < f ?m" using lt Cons p by simp
      then have "f x < f ?m" using False by simp
      then show ?thesis unfolding step using lt Cons p xs
        by (intro exI[of _ "b # x # pre'"] exI[of _ post]) auto
    qed
  qed
qed

lemma first_argmax_max_by: "first_argmax f (b # xs) = Some (max_by f b xs)"
proof -
  obtain pre post where sp: "b # xs = pre @ max_by f b xs # post"
    and lt: "\<forall>y\<in>set pre. f y < f (max_by f b xs)"
    using max_by_split[of b xs f] by blast
  let ?P = "\<lambda>x. list_all (\<lambda>y. f y \<le> f x) (b # xs)"
  have "?P (max_by f b xs)" unfolding list_all_iff using max_by_ge[of _ b xs f] by blast
  moreover have "\<forall>y\<in>set pre. \<not> ?P y"
  proof
    fix y assume "y \<in> set pre"
    then have "f y < f (max_by f b xs)" using lt by blast
    moreover have "max_by f b xs \<in> set (b # xs)" by (rule max_by_mem)
    ultimately show "\<not> ?P y" unfolding list_all_iff by (meson not_le)
  qed
  ultimately have "find ?P (pre @ max_by f b xs # post) = Some (max_by f b xs)"
    by (rule find_first)
  then show ?thesis unfolding first_argmax_def sp[symmetric] .
qed

lemma first_argmax_Nil: "first_argmax f [] = None"
  by (simp add: first_argmax_def)


section \<open>The pattern recognizer returns the first match in declaration order\<close>


lemma find_app:
  "find P (xs @ ys) = (case find P xs of None \<Rightarrow> find P ys | Some x \<Rightarrow> Some x)"
  by (induction xs) auto

lemma find_mapped: "find P (map f xs) = map_option f (find (\<lambda>x. P (f x)) xs)"
  by (induction xs) auto

lemma find_Some_mem: "find P xs = Some x \<Longrightarrow> x \<in> set xs \<and> P x"
  by (induction xs) (auto split: if_splits)

lemma try_patterns_find:
  "try_patterns nd text i k ps =
     (case find (\<lambda>(k', p). re_search nd p text \<noteq> None) (enumerate k ps) of
        None \<Rightarrow> None
      | Some (k', p) \<Rightarrow>
          (case re_search nd p text of
             None \<Rightarrow> None
           | Some g \<Rightarrow> Some (regex_result i k' g)))"
  by (induction ps arbitrary: k)
     (auto simp: new_IntentResult_def regex_result_def split: option.splits)

lemma flat_rules_Cons:
  "flat_rules ((i, ps) # table) =
     map (\<lambda>(k, p). (i, k, p)) (enumerate 0 ps) @ flat_rules table"
  by (simp add: flat_rules_def)

lemma find_rules_of_intent:
  "find (\<lambda>(i', k, p). re_search nd p text \<noteq> None)
        (map (\<lambda>(k, p). (i, k, p)) (enumerate 0 ps))
   = map_option (\<lambda>(k, p). (i, k, p))
       (find (\<lambda>(k, p). re_search nd p text \<noteq> None) (enumerate 0 ps))"
  unfolding find_mapped by (simp add: case_prod_unfold)

lemma spec_regex_parse_Cons:
  "spec_regex_parse ((i, ps) # table) nd text =
     (case try_patterns nd text i 0 ps of
        Some r \<Rightarrow> r
      | None \<Rightarrow> spec_regex_parse table nd text)"
proof (cases "find (\<lambda>(k, p). re_search nd p text \<noteq> None) (enumerate 0 ps)")
  case None
  then have "try_patterns nd text i 0 ps = None"
    unfolding try_patterns_find by simp
  moreover have "find (\<lambda>(i', k, p). re_search nd p text \<noteq> None) (flat_rules ((i, ps) # table))
      = find (\<lambda>(i', k, p). re_search nd p text \<noteq> None) (flat_rules table)"
    unfolding flat_rules_Cons find_app find_rules_of_intent None by simp
  ultimately show ?thesis unfolding spec_regex_parse_def by simp
next
  case (Some kp)
  obtain k p where kp: "kp = (k, p)" by (cases kp)
  from Some have "re_search nd p text \<noteq> None"
    using find_Some_mem[of _ "enumerate 0 ps" kp] unfolding kp by auto
  then obtain g where g: "re_search nd p text = Some g" by auto
  have "try_patterns nd text i 0 ps = Some (regex_result i k g)"
    unfolding try_patterns_find Some kp using g by simp
  moreover have "find (\<lambda>(i', k, p). re_search nd p text \<noteq> None) (flat_rules ((i, ps) # table))
      = Some (i, k, p)"
    unfolding flat_rules_Cons find_app find_rules_of_intent Some kp by simp
  ultimately show ?thesis unfolding spec_regex_parse_def using g by simp
qed

lemma try_intents_spec: "try_intents nd text table = spec_regex_parse table nd text"
proof (induction table)
  case Nil
  show ?case by (simp add: spec_regex_parse_def flat_rules_def)
next
  case (Cons a table)
  obtain i ps where a: "a = (i, ps)" by (cases a)
  show ?case unfolding a spec_regex_parse_Cons using Cons.IH by (simp split: option.split)
qed

lemma regex_parse_cases:
  "RegexIntentParser_parse nd text = default_IntentResult
   \<or> (\<exists>i k g. i \<in> fst ` set patterns \<and> RegexIntentParser_parse nd text = regex_result i k g)"
proof -
  have *: "RegexIntentParser_parse nd text = spec_regex_parse patterns nd text"
    by (simp add: RegexIntentParser_parse_def try_intents_spec)
  show ?thesis
  proof (cases "find (\<lambda>(i_name, k, p). re_search nd p text \<noteq> None) (flat_rules patterns)")
    case None
    then show ?thesis unfolding * by (simp add: spec_regex_parse_def)
  next
    case (Some r)
    obtain i k p where r: "r = (i, k, p)" by (cases r)
    from Some have "r \<in> set (flat_rules patterns)" by (simp add: find_Some_mem)
    then have "i \<in> fst ` set patterns" unfolding r flat_rules_def by force
    then show ?thesis unfolding * using Some r
      by (auto simp: spec_regex_parse_def split: option.splits)
  qed
qed

text \<open>
  Claim C4. The pattern recognizer goes through the intents and, within an intent, through
  its patterns in declaration order, and returns the result of the first pattern that
  \<^verbatim>\<open>re.search\<close> finds in the text: the intent of that pattern, confidence 0.9, the single
  rule identifier made of the intent and the index of the pattern, and the groups of the
  match as extracted entities (\<^verbatim>\<open>None\<close> when the pattern has no group). When no pattern
  matches it returns the unknown result.
\<close>

theorem regex_parse_first_match:
  "RegexIntentParser_parse nd text = spec_regex_parse patterns nd text"
  by (simp add: RegexIntentParser_parse_def try_intents_spec)


section \<open>The keyword recognizer computes the scores of the specification\<close>

lemma scan_words_eq:
  "scan_words text w ws (s, m) =
     (s + (\<Sum>x\<leftarrow>ws. if str_in x text then w else 0), m @ filter (\<lambda>x. str_in x text) ws)"
  by (induction ws arbitrary: s m) (simp_all add: add.assoc)

lemma score_intent_eq:
  "score_intent text config = (raw_score config text, found_words config text)"
  by (simp add: score_intent_def raw_score_def found_words_def scan_words_eq)

lemma dict_set_fresh: "k \<notin> fst ` set d \<Longrightarrow> dict_set d k v = d @ [(k, v)]"
  by (induction d) auto

lemma collect_scores_eq:
  "distinct (map fst table) \<Longrightarrow> fst ` set acc \<inter> fst ` set table = {} \<Longrightarrow>
   collect_scores text table acc = acc @ map (entry_of text) (scored text table)"
proof (induction table arbitrary: acc)
  case Nil
  show ?case by (simp add: scored_def)
next
  case (Cons a table)
  obtain i config where a: "a = (i, config)" by (cases a)
  from Cons.prems have d: "distinct (map fst table)" and i: "i \<notin> fst ` set table"
    and iacc: "i \<notin> fst ` set acc" and disj: "fst ` set acc \<inter> fst ` set table = {}"
    unfolding a by auto
  show ?case
  proof (cases "0 < raw_score config text")
    case True
    let ?acc = "acc @ [(i, min (raw_score config text) 1, found_words config text)]"
    have "fst ` set ?acc \<inter> fst ` set table = {}" using disj i by auto
    then have "collect_scores text table ?acc = ?acc @ map (entry_of text) (scored text table)"
      by (rule Cons.IH[OF d])
    then show ?thesis unfolding a using True iacc
      by (simp add: score_intent_eq dict_set_fresh scored_def entry_of_def)
  next
    case False
    have "collect_scores text table acc = acc @ map (entry_of text) (scored text table)"
      by (rule Cons.IH[OF d disj])
    then show ?thesis unfolding a using False
      by (simp add: score_intent_eq scored_def)
  qed
qed

lemma first_argmax_cong:
  "(\<And>x. x \<in> set xs \<Longrightarrow> f x = g x) \<Longrightarrow> first_argmax f xs = first_argmax g xs"
  unfolding first_argmax_def list_all_iff
  by (rule find_cong) auto

lemma first_argmax_map:
  "first_argmax f (map h xs) = map_option h (first_argmax (\<lambda>x. f (h x)) xs)"
  unfolding first_argmax_def list_all_iff find_mapped by simp

lemma first_argmax_mem: "first_argmax f xs = Some x \<Longrightarrow> x \<in> set xs"
  unfolding first_argmax_def by (simp add: find_Some_mem)

lemma first_argmax_nonempty: "xs \<noteq> [] \<Longrightarrow> \<exists>x. first_argmax f xs = Some x"
  by (cases xs) (simp_all add: first_argmax_max_by)

lemma scored_distinct: "distinct (map fst table) \<Longrightarrow> distinct (map fst (scored text table))"
  unfolding scored_def by (rule distinct_map_filter)

lemma fst_entry_of: "fst (entry_of text x) = fst x"
  by (cases x) (simp add: entry_of_def)

lemma map_of_entries:
  assumes d: "distinct (map fst xs)" and x: "(i, config) \<in> set xs"
  shows "map_of (map (entry_of text) xs) i
         = Some (min (raw_score config text) 1, found_words config text)"
proof -
  have "distinct (map fst (map (entry_of text) xs))"
    using d by (simp add: comp_def fst_entry_of)
  moreover have "(i, min (raw_score config text) 1, found_words config text)
                   \<in> set (map (entry_of text) xs)"
    using x by (force simp: entry_of_def)
  ultimately show ?thesis by (rule map_of_is_SomeI)
qed

lemma select_best_entries:
  assumes d: "distinct (map fst xs)"
  shows "select_best (map (entry_of text) xs) =
     (case first_argmax (\<lambda>(i, config). min (raw_score config text) 1) xs of
        None \<Rightarrow> default_IntentResult
      | Some (i, config) \<Rightarrow>
          \<lparr>intent = i, confidence = min (raw_score config text) 1,
           matched_rules = [''keyword_'' @ i],
           extracted_entities = Some (found_words config text)\<rparr>)"
proof (cases xs)
  case Nil
  then show ?thesis by (simp add: select_best_def first_argmax_Nil)
next
  case (Cons x xs')
  let ?es = "map (entry_of text) xs"
  let ?clamp = "\<lambda>(i, config). min (raw_score config text) 1"
  have keys: "map fst ?es = map fst xs" by (simp add: comp_def fst_entry_of)
  have sc: "\<And>y. y \<in> set xs \<Longrightarrow> score_of ?es (fst y) = ?clamp y"
  proof -
    fix y assume y: "y \<in> set xs"
    obtain i config where yc: "y = (i, config)" by (cases y)
    show "score_of ?es (fst y) = ?clamp y"
      using map_of_entries[OF d y[unfolded yc], of "text"] unfolding yc
      by (simp add: score_of_def)
  qed
  have "first_argmax (score_of ?es) (map fst xs)
        = map_option fst (first_argmax (\<lambda>y. score_of ?es (fst y)) xs)"
    by (rule first_argmax_map)
  also have "first_argmax (\<lambda>y. score_of ?es (fst y)) xs = first_argmax ?clamp xs"
    by (rule first_argmax_cong) (rule sc)
  finally have fa: "first_argmax (score_of ?es) (map fst xs)
        = map_option fst (first_argmax ?clamp xs)" .
  obtain w where w: "first_argmax ?clamp xs = Some w"
    using first_argmax_nonempty[of xs ?clamp] Cons by auto
  obtain i config where wc: "w = (i, config)" by (cases w)
  have mem: "(i, config) \<in> set xs" using first_argmax_mem[OF w] unfolding wc .
  have "map fst xs = fst x # map fst xs'" using Cons by simp
  then have best: "max_by (score_of ?es) (fst x) (map fst xs') = i"
    using fa first_argmax_max_by[of "score_of ?es" "fst x" "map fst xs'"] w wc by simp
  have mo: "map_of ?es i = Some (min (raw_score config text) 1, found_words config text)"
    by (rule map_of_entries[OF d mem])
  have "select_best ?es =
      new_IntentResult i (score_of ?es i) (Some [''keyword_'' @ i]) (Some (words_of ?es i))"
    unfolding select_best_def keys using Cons best by (simp add: Let_def)
  then show ?thesis unfolding w wc using mo
    by (simp add: new_IntentResult_def score_of_def words_of_def)
qed

lemma parse_keywords_spec:
  "distinct (map fst table) \<Longrightarrow> parse_keywords table text = spec_keyword_parse table text"
  unfolding parse_keywords_def spec_keyword_parse_def
  using collect_scores_eq[of table "[]" "text"] select_best_entries[OF scored_distinct, of table "text" "text"]
  by (simp add: scored_def)

lemma keywords_dict_distinct: "distinct (map fst keywords_dict)"
  by (simp add: keywords_dict_def)

lemma keyword_parse_spec:
  "KeywordIntentParser_parse text = spec_keyword_parse keywords_dict text"
  unfolding KeywordIntentParser_parse_def
  by (rule parse_keywords_spec[OF keywords_dict_distinct])


lemma sum_list_if_const:
  "(\<Sum>x\<leftarrow>xs. if P x then (w::rat) else 0) = of_nat (length (filter P xs)) * w"
  by (induction xs) (simp_all add: algebra_simps)

lemma raw_score_found:
  "raw_score config text =
     of_nat (length (filter (\<lambda>w. str_in w text) (primary config))) * weight_primary config
     + of_nat (length (filter (\<lambda>w. str_in w text) (secondary config))) * weight_secondary config"
  by (simp add: raw_score_def sum_list_if_const)

lemma raw_score_no_words: "found_words config text = [] \<Longrightarrow> raw_score config text = 0"
  by (simp add: raw_score_found found_words_def)

lemma keyword_parse_cases:
  "KeywordIntentParser_parse text = default_IntentResult
   \<or> (\<exists>i config. (i, config) \<in> set keywords_dict \<and> 0 < raw_score config text
         \<and> KeywordIntentParser_parse text =
             \<lparr>intent = i, confidence = min (raw_score config text) 1,
              matched_rules = [''keyword_'' @ i],
              extracted_entities = Some (found_words config text)\<rparr>)"
proof (cases "first_argmax (\<lambda>(i, config). min (raw_score config text) 1)
                (filter (\<lambda>(i, config). 0 < raw_score config text) keywords_dict)")
  case None
  then show ?thesis unfolding keyword_parse_spec spec_keyword_parse_def by simp
next
  case (Some w)
  obtain i config where w: "w = (i, config)" by (cases w)
  from first_argmax_mem[OF Some] have "(i, config) \<in> set keywords_dict"
    and "0 < raw_score config text" unfolding w by auto
  then show ?thesis unfolding keyword_parse_spec spec_keyword_parse_def Some w by auto
qed

lemma keyword_two_secondary:
  assumes mem: "(i, config) \<in> set keywords_dict"
    and np: "filter (\<lambda>w. str_in w text) (primary config) = []"
    and two: "length (filter (\<lambda>w. str_in w text) (secondary config)) = 2"
    and others: "\<forall>(j, c) \<in> set keywords_dict. j \<noteq> i \<longrightarrow> found_words c text = []"
  shows "intent (KeywordIntentParser_parse text) = i
         \<and> confidence (KeywordIntentParser_parse text) = 8 / 10"
proof -
  have ws: "weight_secondary config = 4 / 10"
    using mem by (auto simp: keywords_dict_def query_order_keywords_def refund_keywords_def
        issue_invoice_keywords_def)
  have raw: "raw_score config text = 8 / 10"
    unfolding raw_score_found np two ws by simp
  let ?xs = "filter (\<lambda>(i, config). 0 < raw_score config text) keywords_dict"
  have "(i, config) \<in> set ?xs" using mem raw by simp
  then have "?xs \<noteq> []" by (auto simp: filter_empty_conv)
  then obtain w where w: "first_argmax (\<lambda>(i, config). min (raw_score config text) 1) ?xs = Some w"
    using first_argmax_nonempty by blast
  obtain j c where jc: "w = (j, c)" by (cases w)
  from first_argmax_mem[OF w] have jmem: "(j, c) \<in> set keywords_dict"
    and pos: "0 < raw_score c text" unfolding jc by auto
  have "j = i"
  proof (rule ccontr)
    assume "j \<noteq> i"
    with others jmem have "found_words c text = []" by auto
    then have "raw_score c text = 0" by (rule raw_score_no_words)
    with pos show False by simp
  qed
  with jmem mem have "c = config"
    using eq_key_imp_eq_value[OF keywords_dict_distinct] by blast
  show ?thesis
    unfolding keyword_parse_spec spec_keyword_parse_def w jc \<open>j = i\<close> \<open>c = config\<close>
    using raw by simp
qed

lemma keyword_confidence_le_1: "confidence (KeywordIntentParser_parse text) \<le> 1"
  using keyword_parse_cases[of "text"]
  by (auto simp: default_IntentResult_def new_IntentResult_def)

lemma keyword_weights:
  "\<forall>(i, config) \<in> set keywords_dict.
     weight_primary config = 8 / 10 \<and> weight_secondary config = 4 / 10"
  by (simp add: keywords_dict_def query_order_keywords_def refund_keywords_def
        issue_invoice_keywords_def)

text \<open>
  Claim C3. The keyword recognizer scores every intent on its own as the sum of the
  weights (primary 0.8, secondary 0.4) of its keywords that occur in the text, clamps the
  score at 1.0, and returns the first-declared intent of maximal clamped score among those
  that score above zero, with that score as confidence; it returns the unknown result
  when no intent scores above zero. The confidence never exceeds 1.0, and a text whose
  only keywords are two secondary keywords of one intent gets that intent with
  confidence 0.8.
\<close>

theorem keyword_parse_policy:
  "KeywordIntentParser_parse text = spec_keyword_parse keywords_dict text
   \<and> (\<forall>(i, config) \<in> set keywords_dict.
         weight_primary config = 8 / 10 \<and> weight_secondary config = 4 / 10)
   \<and> confidence (KeywordIntentParser_parse text) \<le> 1
   \<and> (\<forall>i config.
         (i, config) \<in> set keywords_dict
         \<and> filter (\<lambda>w. str_in w text) (primary config) = []
         \<and> length (filter (\<lambda>w. str_in w text) (secondary config)) = 2
         \<and> (\<forall>(j, c) \<in> set keywords_dict. j \<noteq> i \<longrightarrow> found_words c text = [])
         \<longrightarrow> intent (KeywordIntentParser_parse text) = i
             \<and> confidence (KeywordIntentParser_parse text) = 8 / 10)"
  using keyword_parse_spec keyword_weights keyword_confidence_le_1 keyword_two_secondary
  by blast

lemmas kw_eval = keywords_dict_def query_order_keywords_def refund_keywords_def
  issue_invoice_keywords_def found_words_def text_express_def

theorem keyword_parse_policy_witness:
  "filter (\<lambda>w. str_in w text_express) (primary query_order_keywords) = []
   \<and> length (filter (\<lambda>w. str_in w text_express) (secondary query_order_keywords)) = 2
   \<and> found_words refund_keywords text_express = []
   \<and> found_words issue_invoice_keywords text_express = []
   \<and> intent (KeywordIntentParser_parse text_express) = ''query_order''
   \<and> confidence (KeywordIntentParser_parse text_express) = 8 / 10"
proof -
  have h1: "(''query_order'', query_order_keywords) \<in> set keywords_dict"
    by (simp add: keywords_dict_def)
  have h2: "filter (\<lambda>w. str_in w text_express) (primary query_order_keywords) = []"
    by (simp add: kw_eval)
  have h3: "length (filter (\<lambda>w. str_in w text_express) (secondary query_order_keywords)) = 2"
    by (simp add: kw_eval)
  have h4: "found_words refund_keywords text_express = []"
    by (simp add: kw_eval)
  have h5: "found_words issue_invoice_keywords text_express = []"
    by (simp add: kw_eval)
  have h6: "\<forall>(j, c) \<in> set keywords_dict. j \<noteq> ''query_order'' \<longrightarrow> found_words c text_express = []"
    using h4 h5 by (simp add: keywords_dict_def)
  from keyword_parse_policy[of text_express] h1 h2 h3 h6
  have "intent (KeywordIntentParser_parse text_express) = ''query_order''
        \<and> confidence (KeywordIntentParser_parse text_express) = 8 / 10"
    by blast
  with h2 h3 h4 h5 show ?thesis by blast
qed


section \<open>The evidence carried by a result\<close>

lemma default_fields:
  "intent default_IntentResult = ''unknown''"
  "confidence default_IntentResult = 0"
  "matched_rules default_IntentResult = []"
  "extracted_entities default_IntentResult = None"
  by (simp_all add: default_IntentResult_def new_IntentResult_def)

lemma pattern_names: "map fst patterns = [''query_order'', ''refund'', ''issue_invoice'']"
  by (simp add: patterns_def)

lemma pattern_intents:
  assumes "i \<in> fst ` set patterns"
  shows "i \<noteq> ''unknown''"
proof -
  from assms have "i \<in> set (map fst patterns)" by simp
  then show ?thesis unfolding pattern_names by auto
qed

lemma keyword_names: "map fst keywords_dict = [''query_order'', ''refund'', ''issue_invoice'']"
  by (simp add: keywords_dict_def)

lemma keyword_intents:
  assumes "(i, config) \<in> set keywords_dict"
  shows "i \<noteq> ''unknown'' \<and> \<not> str_in ''regex'' (''keyword_'' @ i)"
proof -
  from assms have "i \<in> set (map fst keywords_dict)" by force
  then have "i = ''query_order'' \<or> i = ''refund'' \<or> i = ''issue_invoice''"
    unfolding keyword_names by simp
  then show ?thesis by auto
qed


lemma found_words_nonempty: "0 < raw_score config text \<Longrightarrow> found_words config text \<noteq> []"
  using raw_score_no_words[of config "text"] by auto

lemma merge_cases:
  "merge_results rs = default_IntentResult
   \<or> (merge_results rs \<in> set rs \<and> intent (merge_results rs) \<noteq> ''unknown'')"
proof (cases "filter (\<lambda>r. intent r \<noteq> ''unknown'') rs")
  case Nil
  then show ?thesis by (simp add: merge_results_def)
next
  case (Cons v vs)
  let ?valid = "filter (\<lambda>r. intent r \<noteq> ''unknown'') rs"
  have m: "max_by confidence v vs \<in> set ?valid"
    using max_by_mem[of confidence v vs] Cons by simp
  show ?thesis
  proof (cases "filter is_regex_result ?valid")
    case Nil
    then have "merge_results rs = max_by confidence v vs"
      using Cons by (simp add: merge_results_def)
    with m show ?thesis by auto
  next
    case (Cons r0 rest)
    then have "r0 \<in> set (filter is_regex_result ?valid)" by simp
    then have r0: "r0 \<in> set ?valid" by simp
    have "merge_results rs = r0 \<or> merge_results rs = max_by confidence v vs"
      using Cons \<open>?valid = v # vs\<close> by (simp add: merge_results_def)
    with m r0 show ?thesis by auto
  qed
qed

lemma regex_parse_invariant:
  "evidence_invariant (RegexIntentParser_parse nd text)
   \<and> evidence_shape (RegexIntentParser_parse nd text)"
proof -
  from regex_parse_cases[of nd "text"] show ?thesis
  proof
    assume "RegexIntentParser_parse nd text = default_IntentResult"
    then show ?thesis
      by (simp add: evidence_invariant_def evidence_shape_def default_fields)
  next
    assume "\<exists>i k g. i \<in> fst ` set patterns
              \<and> RegexIntentParser_parse nd text = regex_result i k g"
    then obtain i k g where i: "i \<in> fst ` set patterns"
      and r: "RegexIntentParser_parse nd text = regex_result i k g" by blast
    from i have "i \<noteq> ''unknown''" by (rule pattern_intents)
    then show ?thesis unfolding r
      by (simp add: evidence_invariant_def evidence_shape_def regex_result_def)
  qed
qed

lemma keyword_parse_invariant:
  "evidence_invariant (KeywordIntentParser_parse text)
   \<and> evidence_shape (KeywordIntentParser_parse text)"
proof -
  from keyword_parse_cases[of "text"] show ?thesis
  proof
    assume "KeywordIntentParser_parse text = default_IntentResult"
    then show ?thesis
      by (simp add: evidence_invariant_def evidence_shape_def default_fields)
  next
    assume "\<exists>i config. (i, config) \<in> set keywords_dict \<and> 0 < raw_score config text
         \<and> KeywordIntentParser_parse text =
             \<lparr>intent = i, confidence = min (raw_score config text) 1,
              matched_rules = [''keyword_'' @ i],
              extracted_entities = Some (found_words config text)\<rparr>"
    then obtain i config where mem: "(i, config) \<in> set keywords_dict"
      and pos: "0 < raw_score config text"
      and r: "KeywordIntentParser_parse text =
             \<lparr>intent = i, confidence = min (raw_score config text) 1,
              matched_rules = [''keyword_'' @ i],
              extracted_entities = Some (found_words config text)\<rparr>" by blast
    from mem have "i \<noteq> ''unknown''" using keyword_intents by blast
    moreover from pos have "found_words config text \<noteq> []" by (rule found_words_nonempty)
    moreover from pos have "min (raw_score config text) 1 \<noteq> 0" by simp
    ultimately show ?thesis unfolding r
      by (simp add: evidence_invariant_def evidence_shape_def)
  qed
qed

lemma merge_invariant:
  assumes "\<forall>r\<in>set rs. evidence_invariant r \<and> evidence_shape r"
  shows "evidence_invariant (merge_results rs) \<and> evidence_shape (merge_results rs)"
proof -
  from merge_cases[of rs] show ?thesis
  proof
    assume "merge_results rs = default_IntentResult"
    then show ?thesis
      by (simp add: evidence_invariant_def evidence_shape_def default_fields)
  next
    assume "merge_results rs \<in> set rs \<and> intent (merge_results rs) \<noteq> ''unknown''"
    with assms show ?thesis by blast
  qed
qed

lemma chain_merge_invariant:
  "evidence_invariant (merge_results [RegexIntentParser_parse nd text, KeywordIntentParser_parse text])
   \<and> evidence_shape (merge_results [RegexIntentParser_parse nd text, KeywordIntentParser_parse text])"
  by (rule merge_invariant) (simp add: regex_parse_invariant keyword_parse_invariant)

text \<open>
  Claim C2. In every result of the regex parser, of the keyword parser and of the merge of
  the two, the intent is unknown exactly when the confidence is 0.0, and the confidence
  is 0.0 exactly when there is no matched rule.
\<close>

theorem results_satisfy_invariant:
  "evidence_invariant (RegexIntentParser_parse nd text)
   \<and> evidence_invariant (KeywordIntentParser_parse text)
   \<and> evidence_invariant
       (merge_results [RegexIntentParser_parse nd text, KeywordIntentParser_parse text])"
  using regex_parse_invariant keyword_parse_invariant chain_merge_invariant by blast

text \<open>
  Claim C8, as the code has it. In every result of the regex parser, of the keyword parser
  and of the merge of the two, \<^verbatim>\<open>matched_rules\<close> is the empty list on the unknown result and
  non-empty on a real match; \<^verbatim>\<open>extracted_entities\<close> is null on the unknown result, and
  on a real match it is null or a non-empty tuple, never an empty one.
\<close>

theorem results_evidence_shape:
  "evidence_shape (RegexIntentParser_parse nd text)
   \<and> evidence_shape (KeywordIntentParser_parse text)
   \<and> evidence_shape
       (merge_results [RegexIntentParser_parse nd text, KeywordIntentParser_parse text])"
  using regex_parse_invariant keyword_parse_invariant chain_merge_invariant by blast

lemmas regex_eval = RegexIntentParser_parse_def patterns_def lits_def any_greedy_def
  any_lazy_def match_at_def default_IntentResult_def new_IntentResult_def

text \<open>
  The claim as the specification words it fails on both sides: the match of the text
  \<^verbatim>\<open>u9000u6B3E\<close> by the groupless pattern \<^verbatim>\<open>u9000.*u6B3E\<close> has null entities, and the unknown
  result has null entities instead of an empty list.
\<close>

theorem claimed_evidence_counterexample:
  "\<not> claimed_evidence (RegexIntentParser_parse ascii_digits text_refund)
   \<and> \<not> claimed_evidence (RegexIntentParser_parse ascii_digits text_nothing)"
  by (simp add: claimed_evidence_def regex_eval text_refund_def text_nothing_def)


section \<open>The merge of the recognizer results\<close>









lemmas keyword_eval = KeywordIntentParser_parse_def parse_keywords_def keywords_dict_def
  query_order_keywords_def refund_keywords_def issue_invoice_keywords_def score_intent_def
  select_best_def score_of_def words_of_def new_IntentResult_def default_IntentResult_def
  Let_def



section \<open>Slot extraction\<close>

lemma m_piece_groups:
  "(r, caps') \<in> set (m_piece nd p (s, caps)) \<Longrightarrow>
     length caps' = length caps + ngroups [p]"
  by (cases p) auto

lemma m_pat_groups:
  "(r, caps') \<in> set (m_pat nd ps (s, caps)) \<Longrightarrow>
     length caps' = length caps + ngroups ps"
proof (induction ps arbitrary: s caps)
  case Nil
  then show ?case by simp
next
  case (Cons p ps)
  from Cons.prems obtain s1 caps1 where
    st: "(s1, caps1) \<in> set (m_piece nd p (s, caps))"
    and r: "(r, caps') \<in> set (m_pat nd ps (s1, caps1))" by auto
  from m_piece_groups[OF st] have l1: "length caps1 = length caps + ngroups [p]" .
  from Cons.IH[OF r] have "length caps' = length caps1 + ngroups ps" .
  with l1 show ?case by (cases p) simp_all
qed

lemma match_at_groups: "match_at nd pat s = Some g \<Longrightarrow> length g = ngroups pat"
proof -
  assume m: "match_at nd pat s = Some g"
  then obtain r rest where "m_pat nd pat (s, []) = (r, g) # rest"
    by (auto simp: match_at_def split: list.splits)
  then have "(r, g) \<in> set (m_pat nd pat (s, []))" by simp
  from m_pat_groups[OF this] show ?thesis by simp
qed

lemma re_search_groups: "re_search nd pat s = Some g \<Longrightarrow> length g = ngroups pat"
  by (induction s) (auto split: option.splits dest: match_at_groups)

lemma fill_slots_eq:
  assumes "distinct (map fst pats)" and "\<forall>(n, p) \<in> set pats. 0 < ngroups p"
  shows "fill_slots nd text pats slots =
     Inr (\<lambda>name. case map_of pats name of
                    None \<Rightarrow> slots name
                  | Some p \<Rightarrow> (case slot_value nd text p of
                                 None \<Rightarrow> slots name
                               | Some g \<Rightarrow> Some g))"
  using assms
proof (induction pats arbitrary: slots)
  case Nil
  show ?case by simp
next
  case (Cons a pats)
  obtain n p where a: "a = (n, p)" by (cases a)
  from Cons.prems have d: "distinct (map fst pats)" and fresh: "map_of pats n = None"
    and g: "0 < ngroups p" and gs: "\<forall>(n, p) \<in> set pats. 0 < ngroups p"
    unfolding a by (auto simp: map_of_eq_None_iff)
  note IH = Cons.IH[OF d gs]
  show ?case
  proof (cases "re_search nd p text")
    case None
    then have sv: "slot_value nd text p = None" by (simp add: slot_value_def)
    have "fill_slots nd text (a # pats) slots = fill_slots nd text pats slots"
      unfolding a using None by simp
    also note IH[of slots]
    finally show ?thesis unfolding a using sv fresh
      by (auto simp: fun_eq_iff split: option.splits)
  next
    case (Some groups)
    from re_search_groups[OF Some] g obtain g1 rest where gr: "groups = g1 # rest"
      by (cases groups) auto
    have sv: "slot_value nd text p = Some g1" using Some gr by (simp add: slot_value_def)
    have "fill_slots nd text (a # pats) slots = fill_slots nd text pats (slots(n \<mapsto> g1))"
      unfolding a using Some gr by simp
    also note IH[of "slots(n \<mapsto> g1)"]
    finally show ?thesis unfolding a using sv fresh
      by (auto simp: fun_eq_iff split: option.splits)
  qed
qed

lemma extract_slots_in_spec:
  assumes ok: "\<forall>(i, pats) \<in> set table.
                 distinct (map fst pats) \<and> (\<forall>(n, p) \<in> set pats. 0 < ngroups p)"
  shows "extract_slots_in table nd text i = Inr (spec_slots table nd text i)"
proof (cases "map_of table i")
  case None
  then show ?thesis by (simp add: extract_slots_in_def spec_slots_def fun_eq_iff)
next
  case (Some pats)
  then have "(i, pats) \<in> set table" by (rule map_of_SomeD)
  with ok have d: "distinct (map fst pats)" and g: "\<forall>(n, p) \<in> set pats. 0 < ngroups p"
    by auto
  show ?thesis
    unfolding extract_slots_in_def
    using fill_slots_eq[OF d g, of nd "text" Map.empty] Some
    by (auto simp: fun_eq_iff spec_slots_def split: option.splits)
qed

lemma slot_patterns_ok:
  "\<forall>(i, pats) \<in> set slot_patterns.
     distinct (map fst pats) \<and> (\<forall>(n, p) \<in> set pats. 0 < ngroups p)"
  by (simp add: slot_patterns_def lits_def any_lazy_def any_greedy_def)

lemma extract_slots_spec:
  "extract_slots nd text i = Inr (spec_slots slot_patterns nd text i)"
  unfolding extract_slots_def by (rule extract_slots_in_spec[OF slot_patterns_ok])

lemma slot_names: "map fst slot_patterns = [''query_order'', ''refund'', ''issue_invoice'']"
  by (simp add: slot_patterns_def)

lemma spec_slots_unconfigured:
  assumes "i \<notin> set (map fst table)"
  shows "spec_slots table nd text i = Map.empty"
proof -
  from assms have "map_of table i = None" by (simp add: map_of_eq_None_iff)
  then show ?thesis by (simp add: spec_slots_def fun_eq_iff)
qed

lemma extract_slots_unknown: "extract_slots nd text ''unknown'' = Inr Map.empty"
  unfolding extract_slots_spec
  by (simp add: spec_slots_unconfigured slot_names)


text \<open>
  Claim C5. Slot extraction returns, without raising, the mapping that holds a slot of the
  winning intent exactly when the pattern of that slot is found in the text, whatever
  the other slots do, and then maps it to the first group of the match; a slot whose
  pattern is not found is absent. For an intent without slot configuration, such as
  unknown, the mapping is empty.
\<close>

theorem extract_slots_policy:
  "extract_slots nd text i = Inr (spec_slots slot_patterns nd text i)
   \<and> (i \<notin> set (map fst slot_patterns) \<longrightarrow> extract_slots nd text i = Inr Map.empty)
   \<and> extract_slots nd text ''unknown'' = Inr Map.empty"
  using extract_slots_spec[of nd "text" i] spec_slots_unconfigured[of i slot_patterns nd "text"]
    extract_slots_unknown[of nd "text"]
  by simp

lemmas slot_eval = spec_slots_def slot_value_def slot_patterns_def lits_def any_greedy_def
  any_lazy_def match_at_def ascii_digits_def

theorem extract_slots_policy_witness:
  "''smalltalk'' \<notin> set (map fst slot_patterns)
   \<and> extract_slots ascii_digits text_invoice ''smalltalk'' = Inr Map.empty
   \<and> map_sum id (\<lambda>slots. (slots ''amount'', slots ''order_id'', slots ''time''))
        (extract_slots ascii_digits text_invoice ''issue_invoice'')
      = Inr (Some [0x31, 0x30, 0x30, 0x30], None, None)"
proof -
  have n: "''smalltalk'' \<notin> set (map fst slot_patterns)" by (simp add: slot_names)
  with extract_slots_policy[of ascii_digits text_invoice "''smalltalk''"]
  have e: "extract_slots ascii_digits text_invoice ''smalltalk'' = Inr Map.empty" by blast
  from extract_slots_policy[of ascii_digits text_invoice "''issue_invoice''"]
  have "extract_slots ascii_digits text_invoice ''issue_invoice''
        = Inr (spec_slots slot_patterns ascii_digits text_invoice ''issue_invoice'')" by blast
  then have "map_sum id (\<lambda>slots. (slots ''amount'', slots ''order_id'', slots ''time''))
        (extract_slots ascii_digits text_invoice ''issue_invoice'')
      = Inr (Some [0x31, 0x30, 0x30, 0x30], None, None)"
    by (simp add: slot_eval text_invoice_def)
  with n e show ?thesis by blast
qed


section \<open>The chain on texts that match nothing\<close>

lemma merge_defaults: "merge_results [default_IntentResult, default_IntentResult] = default_IntentResult"
  by (simp add: merge_results_def default_fields)

lemma invoke_unknown:
  assumes r: "RegexIntentParser_parse nd text = default_IntentResult"
    and k: "KeywordIntentParser_parse text = default_IntentResult"
    and d: "input_dict ''text'' = Some (PStr text)"
  shows "invoke nd input_dict = Inr unknown_result"
  using r k d
  by (simp add: invoke_def Let_def merge_defaults default_fields extract_slots_unknown
        generate_reasoning_def unknown_result_def)

lemma invoke_default_text:
  assumes "input_dict ''text'' = None"
  shows "invoke nd input_dict = invoke nd (input_dict(''text'' \<mapsto> PStr []))"
  using assms by (simp add: invoke_def)

lemma flat_rules_mem:
  "(i, k, p) \<in> set (flat_rules table) \<Longrightarrow> \<exists>ps. (i, ps) \<in> set table \<and> p \<in> set ps"
  by (fastforce simp: flat_rules_def in_set_enumerate_eq)

lemma regex_no_match:
  assumes "\<forall>(i, ps) \<in> set patterns. \<forall>p \<in> set ps. re_search nd p text = None"
  shows "RegexIntentParser_parse nd text = default_IntentResult"
proof -
  have "find (\<lambda>(i, k, p). re_search nd p text \<noteq> None) (flat_rules patterns) = None"
  proof (rule ccontr)
    assume "find (\<lambda>(i, k, p). re_search nd p text \<noteq> None) (flat_rules patterns) \<noteq> None"
    then obtain x where x: "find (\<lambda>(i, k, p). re_search nd p text \<noteq> None) (flat_rules patterns) = Some x"
      by auto
    obtain i k p where xp: "x = (i, k, p)" by (cases x)
    from find_Some_mem[OF x] have m: "(i, k, p) \<in> set (flat_rules patterns)"
      and ne: "re_search nd p text \<noteq> None" unfolding xp by auto
    from flat_rules_mem[OF m] obtain ps where "(i, ps) \<in> set patterns" "p \<in> set ps" by blast
    with assms have "re_search nd p text = None" by blast
    with ne show False by simp
  qed
  then show ?thesis
    unfolding RegexIntentParser_parse_def try_intents_spec spec_regex_parse_def by simp
qed

lemma keyword_no_word:
  assumes "\<forall>(i, config) \<in> set keywords_dict.
             \<forall>w \<in> set (primary config @ secondary config). \<not> str_in w text"
  shows "KeywordIntentParser_parse text = default_IntentResult"
proof -
  from keyword_parse_cases[of "text"] show ?thesis
  proof
    assume "\<exists>i config. (i, config) \<in> set keywords_dict \<and> 0 < raw_score config text
         \<and> KeywordIntentParser_parse text =
             \<lparr>intent = i, confidence = min (raw_score config text) 1,
              matched_rules = [''keyword_'' @ i],
              extracted_entities = Some (found_words config text)\<rparr>"
    then obtain i config where mem: "(i, config) \<in> set keywords_dict"
      and pos: "0 < raw_score config text" by blast
    from mem assms have "\<forall>w \<in> set (primary config @ secondary config). \<not> str_in w text"
      by blast
    then have "found_words config text = []"
      by (auto simp: found_words_def filter_empty_conv)
    then have "raw_score config text = 0" by (rule raw_score_no_words)
    with pos show ?thesis by simp
  qed
qed

text \<open>
  Claim C6. For a text that no regex pattern matches and that contains no configured
  keyword, the chain returns a result, not an exception: intent unknown, confidence 0.0,
  no matched rule and no slot.
\<close>

theorem invoke_unknown_when_nothing_matches:
  assumes "\<forall>(i, ps) \<in> set patterns. \<forall>p \<in> set ps. re_search nd p text = None"
    and "\<forall>(i, config) \<in> set keywords_dict.
           \<forall>w \<in> set (primary config @ secondary config). \<not> str_in w text"
    and "input_dict ''text'' = Some (PStr text)"
  shows "invoke nd input_dict = Inr unknown_result"
  using regex_no_match[OF assms(1)] keyword_no_word[OF assms(2)] assms(3)
  by (rule invoke_unknown)

lemmas table_eval = patterns_def lits_def any_greedy_def any_lazy_def match_at_def
  keywords_dict_def query_order_keywords_def refund_keywords_def issue_invoice_keywords_def

theorem invoke_unknown_when_nothing_matches_witness:
  "invoke ascii_digits [''text'' \<mapsto> PStr text_nothing] = Inr unknown_result
   \<and> r_intent unknown_result = ''unknown'' \<and> r_confidence unknown_result = 0
   \<and> r_matched_rules unknown_result = [] \<and> r_slots unknown_result = Map.empty"
proof -
  have h1: "\<forall>(i, ps) \<in> set patterns. \<forall>p \<in> set ps. re_search ascii_digits p text_nothing = None"
    by (simp add: table_eval text_nothing_def)
  have h2: "\<forall>(i, config) \<in> set keywords_dict.
           \<forall>w \<in> set (primary config @ secondary config). \<not> str_in w text_nothing"
    by (simp add: table_eval text_nothing_def)
  have h3: "[''text'' \<mapsto> PStr text_nothing] ''text'' = Some (PStr text_nothing)" by simp
  have "invoke ascii_digits [''text'' \<mapsto> PStr text_nothing] = Inr unknown_result"
    using h1 h2 h3 by (rule invoke_unknown_when_nothing_matches)
  then show ?thesis by (simp add: unknown_result_def)
qed

lemma empty_text_no_pattern:
  "\<forall>(i, ps) \<in> set patterns. \<forall>p \<in> set ps. re_search nd p [] = None"
  by (simp add: table_eval)

lemma empty_text_no_keyword:
  "\<forall>(i, config) \<in> set keywords_dict.
     \<forall>w \<in> set (primary config @ secondary config). \<not> str_in w []"
  by (simp add: table_eval)

lemma invoke_without_text:
  assumes "input_dict ''text'' = None"
  shows "invoke nd input_dict = Inr unknown_result"
proof -
  have "(input_dict(''text'' \<mapsto> PStr [])) ''text'' = Some (PStr [])" by simp
  with regex_no_match[OF empty_text_no_pattern] keyword_no_word[OF empty_text_no_keyword]
  have "invoke nd (input_dict(''text'' \<mapsto> PStr [])) = Inr unknown_result"
    by (rule invoke_unknown)
  then show ?thesis using invoke_default_text[of input_dict nd] assms by simp
qed

text \<open>
  Claim C10. An input dict without the key \<^verbatim>\<open>"text"\<close> is processed as the empty text and
  does not raise; no regex pattern matches the empty text and no keyword occurs in it;
  the result has intent unknown, confidence 0.0 and no slot.
\<close>

theorem invoke_missing_text_key:
  "(input_dict ''text'' = None \<longrightarrow>
      invoke nd input_dict = invoke nd (input_dict(''text'' \<mapsto> PStr []))
      \<and> invoke nd input_dict = Inr unknown_result)
   \<and> (\<forall>(i, ps) \<in> set patterns. \<forall>p \<in> set ps. re_search nd p [] = None)
   \<and> (\<forall>(i, config) \<in> set keywords_dict.
         \<forall>w \<in> set (primary config @ secondary config). \<not> str_in w [])"
  using invoke_default_text invoke_without_text empty_text_no_pattern empty_text_no_keyword
  by blast

theorem invoke_missing_text_key_witness:
  "invoke ascii_digits Map.empty = Inr unknown_result
   \<and> invoke ascii_digits [''lang'' \<mapsto> PStr [122, 104]] = Inr unknown_result
   \<and> r_intent unknown_result = ''unknown'' \<and> r_confidence unknown_result = 0
   \<and> r_slots unknown_result = Map.empty"
proof -
  have "Map.empty ''text'' = (None :: pyval option)" by simp
  with invoke_missing_text_key[of Map.empty ascii_digits]
  have a: "invoke ascii_digits Map.empty = Inr unknown_result" by blast
  have "[''lang'' \<mapsto> PStr [122, 104]] ''text'' = None" by simp
  with invoke_missing_text_key[of "[''lang'' \<mapsto> PStr [122, 104]]" ascii_digits]
  have b: "invoke ascii_digits [''lang'' \<mapsto> PStr [122, 104]] = Inr unknown_result" by blast
  from a b show ?thesis by (simp add: unknown_result_def)
qed


section \<open>A sentence with two secondary keywords\<close>

lemma regex_express: "RegexIntentParser_parse nd text_express = default_IntentResult"
  by (rule regex_no_match) (simp add: table_eval text_express_def)

lemma keyword_express:
  "KeywordIntentParser_parse text_express =
     \<lparr>intent = ''query_order'', confidence = 8 / 10,
      matched_rules = [''keyword_query_order''],
      extracted_entities = Some [[0x5FEB, 0x9012], [0x5230, 0x4E86, 0x5417]]\<rparr>"
  by (simp add: keyword_eval text_express_def)

lemma invoke_express:
  "map_sum id
     (\<lambda>r. (r_intent r, r_confidence r, r_matched_rules r, r_extracted_entities r,
            r_reasoning r))
     (invoke nd [''text'' \<mapsto> PStr text_express])
   = Inr (''query_order'', 8 / 10, [''keyword_query_order''],
          Some [[0x5FEB, 0x9012], [0x5230, 0x4E86, 0x5417]],
          RecognisedBy KeywordMatch ''query_order'' (8 / 10))"
  by (simp add: invoke_def Let_def regex_express keyword_express merge_results_def
        default_fields is_regex_result_def extract_slots_spec generate_reasoning_def)

text \<open>
  Claim C7, as the code has it. The chain gives the sentence
  \<^verbatim>\<open>u67E5u4E00u4E0Bu6211u7684u5FEBu9012u5230u4E86u5417\<close> the intent query_order through the keyword recognizer
  with confidence 0.8: the sentence contains two secondary keywords of that intent,
  \<^verbatim>\<open>u5FEBu9012\<close> and \<^verbatim>\<open>u5230u4E86u5417\<close>, and no regex pattern matches it.
\<close>

theorem express_query_is_keyword_match:
  "RegexIntentParser_parse nd text_express = default_IntentResult
   \<and> found_words query_order_keywords text_express
       = [[0x5FEB, 0x9012], [0x5230, 0x4E86, 0x5417]]
   \<and> map_sum id
       (\<lambda>r. (r_intent r, r_confidence r, r_matched_rules r, r_extracted_entities r,
              r_reasoning r))
       (invoke nd [''text'' \<mapsto> PStr text_express])
     = Inr (''query_order'', 8 / 10, [''keyword_query_order''],
            Some [[0x5FEB, 0x9012], [0x5230, 0x4E86, 0x5417]],
            RecognisedBy KeywordMatch ''query_order'' (8 / 10))"
  using regex_express invoke_express
  by (simp add: found_words_def query_order_keywords_def text_express_def)

text \<open>The confidence of that result is not the 0.4 of a single secondary keyword.\<close>

theorem express_confidence_counterexample:
  "map_sum id r_confidence (invoke ascii_digits [''text'' \<mapsto> PStr text_express])
     \<noteq> Inr (4 / 10)"
proof -
  obtain r where r: "invoke ascii_digits [''text'' \<mapsto> PStr text_express] = Inr r"
    and c: "r_confidence r = 8 / 10"
    using invoke_express[of ascii_digits]
    by (cases "invoke ascii_digits [''text'' \<mapsto> PStr text_express]") auto
  show ?thesis unfolding r using c by simp
qed

section \<open>The Excel recognizer waits for its trigger\<close>

text \<open>
  Claim C9. When the context is missing, has no \<^verbatim>\<open>'trigger_excel'\<close> entry or has it false,
  the Excel recognizer returns no result and makes no call of the file reader, whatever
  the text, the configuration and the rest of the context are.
\<close>

theorem excel_parse_needs_trigger:
  assumes "context0 = None
           \<or> (\<exists>c. context0 = Some c
                  \<and> (c ''trigger_excel'' = None \<or> c ''trigger_excel'' = Some (PBool False)))"
  shows "ExcelIntentRecognizer_parse self sheet_data text context0 = (None, [])"
  using assms
  by (auto simp: ExcelIntentRecognizer_parse_def dict_get_def truthy_def)

theorem excel_parse_needs_trigger_witness:
  "ExcelIntentRecognizer_parse sample_recognizer sample_sheet_data text_nothing None = (None, [])
   \<and> ExcelIntentRecognizer_parse sample_recognizer sample_sheet_data text_nothing
        (Some Map.empty) = (None, [])
   \<and> ExcelIntentRecognizer_parse sample_recognizer sample_sheet_data text_nothing
        (Some [''trigger_excel'' \<mapsto> PBool False, ''sheet_name'' \<mapsto> PStr [115]]) = (None, [])
   \<and> snd (ExcelIntentRecognizer_parse sample_recognizer sample_sheet_data text_nothing
        (Some [''trigger_excel'' \<mapsto> PBool True])) \<noteq> []"
proof -
  have a: "ExcelIntentRecognizer_parse sample_recognizer sample_sheet_data text_nothing None
           = (None, [])"
    by (rule excel_parse_needs_trigger) simp
  have b: "ExcelIntentRecognizer_parse sample_recognizer sample_sheet_data text_nothing
             (Some Map.empty) = (None, [])"
    by (rule excel_parse_needs_trigger) simp
  have c: "ExcelIntentRecognizer_parse sample_recognizer sample_sheet_data text_nothing
             (Some [''trigger_excel'' \<mapsto> PBool False, ''sheet_name'' \<mapsto> PStr [115]])
           = (None, [])"
    by (rule excel_parse_needs_trigger) simp
  have d: "snd (ExcelIntentRecognizer_parse sample_recognizer sample_sheet_data text_nothing
             (Some [''trigger_excel'' \<mapsto> PBool True])) \<noteq> []"
    by (simp add: ExcelIntentRecognizer_parse_def dict_get_def truthy_def lookup_type_def
          sample_recognizer_def sample_sheet_data_def Let_def)
  from a b c d show ?thesis by blast
qed

end
